theory Spec2Isabelle
  imports Complex_Main
begin

section \<open>Outcomes of run\_vqa.py\<close>

text \<open>
  Every exception that the source raises is a value of \<open>error\<close>; a function that can
  raise returns \<open>error + 'a\<close>, with \<open>Inl\<close> for the exception. Python floats are
  idealised as reals, Python ints are \<open>int\<close>. Two outcomes are not exceptions:
  \<open>NaN_result\<close> is the float NaN, which no real stands for, and \<open>NotModelled\<close> marks
  a tensor operation on ranks that the program never produces.
\<close>

datatype error =
    ValueError_accumulation int
  | ValueError_do_train
  | ValueError_size
  | NameError string
  | UnboundLocalError string
  | AssertionError
  | ZeroDivisionError
  | IndexError
  | RuntimeError
  | NaN_result
  | NotModelled

section \<open>The command line (lines 53--182)\<close>

record args =
  gradient_accumulation_steps :: int
  train_batch_size :: int
  num_train_epochs :: int
  learning_rate :: real
  warmup_proportion :: real
  do_train :: bool
  fp16 :: bool
  loss_scale :: real
  local_rank :: int
  from_pretrained :: bool
  split :: string

section \<open>The training loop (lines 409--497)\<close>

text \<open>
  The locals of \<open>main\<close> that the loop reads but never writes. \<open>warmup_linear\<close> is bound
  on line 370 only, in the branch of a static loss scale; \<open>None\<close> is the unbound local.
  The schedule itself belongs to the optimisation library and is a parameter.
\<close>

record loop_env =
  n_gpu :: int
  num_train_optimization_steps :: int
  warmup_linear :: "(real \<Rightarrow> real \<Rightarrow> real) option"
  len_train_dataloader :: int

text \<open>
  The counters that the loop mutates, and the \<open>lr\<close> entry of each of the optimizer's
  parameter groups.
\<close>

record step_state =
  global_step :: int
  loss_tmp :: real
  total_loss :: real
  train_score :: real
  nb_tr_examples :: int
  nb_tr_steps :: int
  param_group_lr :: "real list"

text \<open>
  What one micro-batch brings into the loop body after lines 432--436: \<open>mb_loss\<close> is
  the value of \<open>instance_bce_with_logits(pred, target)\<close>, \<open>mb_score\<close> the sum of
  \<open>compute_score_with_logits(pred, target)\<close>, and the sizes are \<open>features.size(0)\<close> and
  \<open>question.size(0)\<close>. The two functions are embedded on their own further down.
\<close>

record microbatch =
  mb_loss :: real
  mb_score :: real
  features_size0 :: int
  question_size0 :: int

text \<open>The calls that the loop body makes on its collaborators, in program order.\<close>

datatype event =
    Backward real
  | FP16_Backward real
  | LinePlot int real
  | ClipGradNorm real
  | OptimizerStep
  | ZeroGrad
  | PrintLog int real

definition startIterID :: int where
  "startIterID = 0"

text \<open>\<open>loss.mean()\<close> on the zero-dimensional loss tensor: the mean of its one element.\<close>

definition tensor0_mean :: "real \<Rightarrow> real" where
  "tensor0_mean x = sum_list [x] / real (length [x])"

text \<open>Lines 442--445: the loss that reaches the backward pass.\<close>

definition backward_loss :: "args \<Rightarrow> loop_env \<Rightarrow> real \<Rightarrow> real" where
  "backward_loss a env loss =
     (let loss1 = (if n_gpu env > 1 then tensor0_mean loss else loss)
      in if gradient_accumulation_steps a > 1
         then loss1 / real_of_int (gradient_accumulation_steps a)
         else loss1)"

text \<open>Lines 463--465: the rate of the schedule at the current optimizer step.\<close>

definition lr_this_step :: "args \<Rightarrow> loop_env \<Rightarrow> (real \<Rightarrow> real \<Rightarrow> real) \<Rightarrow> step_state \<Rightarrow> real" where
  "lr_this_step a env w st =
     learning_rate a *
     w (real_of_int (global_step st) / real_of_int (num_train_optimization_steps env))
       (warmup_proportion a)"

text \<open>
  Lines 463--467: the reduced-precision learning-rate overwrite. The name
  \<open>warmup_linear\<close> is looked up before its argument is divided.
\<close>

definition set_lr :: "args \<Rightarrow> loop_env \<Rightarrow> step_state \<Rightarrow> error + step_state" where
  "set_lr a env st =
     (case warmup_linear env of
        None \<Rightarrow> Inl (UnboundLocalError ''warmup_linear'')
      | Some w \<Rightarrow>
          if num_train_optimization_steps env = 0 then Inl ZeroDivisionError
          else Inr (st\<lparr>param_group_lr :=
                         map (\<lambda>_. lr_this_step a env w st) (param_group_lr st)\<rparr>))"

text \<open>Lines 460--473: the body of the fire branch.\<close>

definition fire_branch :: "args \<Rightarrow> loop_env \<Rightarrow> step_state \<Rightarrow> error + (event list \<times> step_state)" where
  "fire_branch a env st =
     (case (if fp16 a then set_lr a env st else Inr st) of
        Inl e \<Rightarrow> Inl e
      | Inr st' \<Rightarrow>
          Inr ([ClipGradNorm 0.25, OptimizerStep, ZeroGrad],
               st'\<lparr>global_step := global_step st' + 1\<rparr>))"

text \<open>Lines 477--497: the periodic log.\<close>

definition periodic_log :: "int \<Rightarrow> int \<Rightarrow> step_state \<Rightarrow> event list \<times> step_state" where
  "periodic_log iterId step st =
     (if step mod 20 = 0 \<and> step \<noteq> 0
      then ([PrintLog iterId (loss_tmp st / 20)], st\<lparr>loss_tmp := 0\<rparr>)
      else ([], st))"

text \<open>Lines 428--497: one pass through the body of the inner loop.\<close>

definition micro_batch ::
  "args \<Rightarrow> loop_env \<Rightarrow> int \<Rightarrow> int \<Rightarrow> microbatch \<Rightarrow> step_state \<Rightarrow> error + (event list \<times> step_state)" where
  "micro_batch a env epochId step b st =
     (let iterId = startIterID + step + epochId * len_train_dataloader env;
          st1 = st\<lparr>total_loss := total_loss st + mb_loss b * real_of_int (features_size0 b),
                    train_score := train_score st + mb_score b\<rparr>;
          loss = backward_loss a env (mb_loss b);
          back = (if fp16 a then FP16_Backward loss else Backward loss);
          st2 = st1\<lparr>loss_tmp := loss_tmp st1 + loss,
                     nb_tr_examples := nb_tr_examples st1 + question_size0 b,
                     nb_tr_steps := nb_tr_steps st1 + 1\<rparr>
      in if gradient_accumulation_steps a = 0 then Inl ZeroDivisionError
         else
           case (if (step + 1) mod gradient_accumulation_steps a = 0
                 then fire_branch a env st2 else Inr ([], st2)) of
             Inl e \<Rightarrow> Inl e
           | Inr (evs, st3) \<Rightarrow>
               (case periodic_log iterId step st3 of
                  (logs, st4) \<Rightarrow> Inr ([back, LinePlot iterId loss] @ evs @ logs, st4)))"

text \<open>
  Line 427: \<open>enumerate(train_dataloader)\<close>. The result lists the events of each
  micro-batch in turn, so its \<open>i\<close>-th element is what micro-batch \<open>i\<close> did.
\<close>

fun train_steps ::
  "args \<Rightarrow> loop_env \<Rightarrow> int \<Rightarrow> nat \<Rightarrow> microbatch list \<Rightarrow> step_state
     \<Rightarrow> error + (event list list \<times> step_state)" where
  "train_steps a env epochId step [] st = Inr ([], st)"
| "train_steps a env epochId step (b # bs) st =
     (case micro_batch a env epochId (int step) b st of
        Inl e \<Rightarrow> Inl e
      | Inr (ev, st') \<Rightarrow>
          (case train_steps a env epochId (Suc step) bs st' of
             Inl e \<Rightarrow> Inl e
           | Inr (evs, st'') \<Rightarrow> Inr (ev # evs, st'')))"

text \<open>
  Lines 420--427: the per-epoch accumulators are reset, then the batches run. The
  \<open>optimizer.zero_grad()\<close> of line 424 belongs to no micro-batch and touches no counter;
  it is not among the events.
\<close>

definition train_epoch ::
  "args \<Rightarrow> loop_env \<Rightarrow> int \<Rightarrow> microbatch list \<Rightarrow> step_state
     \<Rightarrow> error + (event list list \<times> step_state)" where
  "train_epoch a env epochId batches st =
     train_steps a env epochId 0 batches
       (st\<lparr>total_loss := 0, train_score := 0, nb_tr_examples := 0, nb_tr_steps := 0\<rparr>)"

text \<open>
  Lines 419--518: \<open>for epochId in range(args.num_train_epochs)\<close>. \<open>dl e\<close> is what the
  shuffled loader yields in epoch \<open>e\<close>. Lines 499--518 (scoring, evaluation, logging,
  checkpoint) read the counters and assign none of them; \<open>epoch_end\<close> stands for them
  and says whether they raised.
\<close>

fun run_epochs ::
  "args \<Rightarrow> loop_env \<Rightarrow> (nat \<Rightarrow> microbatch list) \<Rightarrow> (nat \<Rightarrow> step_state \<Rightarrow> error option)
     \<Rightarrow> nat list \<Rightarrow> step_state \<Rightarrow> error + (event list list list \<times> step_state)" where
  "run_epochs a env dl epoch_end [] st = Inr ([], st)"
| "run_epochs a env dl epoch_end (e # es) st =
     (case train_epoch a env (int e) (dl e) st of
        Inl x \<Rightarrow> Inl x
      | Inr (evs, st1) \<Rightarrow>
          (case epoch_end e st1 of
             Some x \<Rightarrow> Inl x
           | None \<Rightarrow>
               (case run_epochs a env dl epoch_end es st1 of
                  Inl x \<Rightarrow> Inl x
                | Inr (evss, st2) \<Rightarrow> Inr (evs # evss, st2))))"

text \<open>Lines 409--414 and 419: the counters start at zero and the epochs run.\<close>

definition training ::
  "args \<Rightarrow> loop_env \<Rightarrow> (nat \<Rightarrow> microbatch list) \<Rightarrow> (nat \<Rightarrow> step_state \<Rightarrow> error option)
     \<Rightarrow> real list \<Rightarrow> error + (event list list list \<times> step_state)" where
  "training a env dl epoch_end lrs =
     run_epochs a env dl epoch_end [0..<nat (num_train_epochs a)]
       \<lparr>global_step = 0, loss_tmp = 0, total_loss = 0, train_score = 0, nb_tr_examples = 0,
        nb_tr_steps = 0, param_group_lr = lrs\<rparr>"

section \<open>Start-up of \<open>main\<close> (lines 184--287)\<close>

text \<open>
  Names are resolved as Python resolves them. A name that \<open>main\<close> assigns anywhere in
  its body is a local of \<open>main\<close>, unbound until the assignment runs; any other name is
  looked up among the module's globals and then the builtins.
\<close>

text \<open>The names bound at module level: the imports of lines 18--43 and the definitions.\<close>

definition module_globals :: "string list" where
  "module_globals =
    [''argparse'', ''json'', ''logging'', ''os'', ''random'', ''open'', ''gmtime'',
     ''strftime'', ''timer'', ''SummaryWriter'', ''tqdm'', ''bisect'', ''torch'', ''F'',
     ''nn'', ''DataLoader'', ''BertTokenizer'', ''BertAdam'', ''WarmupLinearSchedule'',
     ''VQAClassificationDataset'', ''ImageFeaturesH5Reader'', ''DataParallel'', ''logger'',
     ''main'', ''TBlogger'', ''evaluate'', ''instance_bce_with_logits'',
     ''compute_score_with_logits'', ''lr_lambda_update'']"

text \<open>
  The builtins that the source refers to. The builtins module has no name
  \<open>image_features_reader_train\<close>.
\<close>

definition builtins_used :: "string list" where
  "builtins_used =
    [''print'', ''bool'', ''int'', ''float'', ''str'', ''len'', ''range'', ''enumerate'',
     ''tuple'', ''list'', ''dict'', ''any'', ''hasattr'', ''pow'', ''ValueError'',
     ''ImportError'', ''__name__'']"

text \<open>The locals of \<open>main\<close> that are bound when line 264 is reached.\<close>

definition bound_at_264 :: "string list" where
  "bound_at_264 =
    [''parser'', ''args'', ''BertConfig'', ''MultiModalBertForVQA'', ''timeStamp'',
     ''savePath'', ''config'', ''f'', ''device'', ''n_gpu'',
     ''num_train_optimization_steps'', ''viz'', ''tokenizer'', ''image_features_reader'']"

text \<open>Every name that \<open>main\<close> assigns: those above and those of lines 265--516.\<close>

definition main_assigned :: "string list" where
  "main_assigned = bound_at_264 @
    [''train_dset'', ''eval_dset'', ''num_labels'', ''model'', ''DDP'', ''no_decay'',
     ''param_optimizer'', ''optimizer_grouped_parameters'', ''bert_weight_name'', ''key'',
     ''value'', ''lr'', ''FP16_Optimizer'', ''FusedAdam'', ''optimizer'',
     ''warmup_linear'', ''train_dataloader'', ''eval_dataloader'', ''startIterID'',
     ''global_step'', ''masked_loss_v_tmp'', ''masked_loss_t_tmp'',
     ''next_sentence_loss_tmp'', ''loss_tmp'', ''start_t'', ''epochId'', ''total_loss'',
     ''tr_loss'', ''nb_tr_examples'', ''nb_tr_steps'', ''train_score'', ''step'',
     ''batch'', ''iterId'', ''features'', ''spatials'', ''image_mask'', ''question'',
     ''target'', ''input_mask'', ''segment_ids'', ''question_ids'', ''pred'', ''loss'',
     ''batch_score'', ''lr_this_step'', ''param_group'', ''end_t'', ''Ep'',
     ''printFormat'', ''printInfo'', ''eval_score'', ''bound'', ''model_to_save'',
     ''output_model_file'']"

definition load_name :: "string list \<Rightarrow> string \<Rightarrow> error + unit" where
  "load_name bound name =
     (if name \<in> set main_assigned
      then (if name \<in> set bound then Inr () else Inl (UnboundLocalError name))
      else if name \<in> set module_globals \<or> name \<in> set builtins_used then Inr ()
      else Inl (NameError name))"

text \<open>The names of a call are loaded from left to right; the first failure is raised.\<close>

fun load_names :: "string list \<Rightarrow> string list \<Rightarrow> error + unit" where
  "load_names bound [] = Inr ()"
| "load_names bound (n # ns) =
     (case load_name bound n of Inl e \<Rightarrow> Inl e | Inr _ \<Rightarrow> load_names bound ns)"

text \<open>Lines 224--229.\<close>

definition check_accumulation :: "args \<Rightarrow> error + unit" where
  "check_accumulation a =
     (if gradient_accumulation_steps a < 1
      then Inl (ValueError_accumulation (gradient_accumulation_steps a))
      else Inr ())"

text \<open>
  Lines 264--275. A data set is named by its split; the result is the training and the
  evaluation set.
\<close>

definition load_datasets :: "args \<Rightarrow> error + (string \<times> string)" where
  "load_datasets a =
     (if split a = ''train''
      then (case load_names bound_at_264
                   [''VQAClassificationDataset'', ''image_features_reader_train'', ''tokenizer''] of
              Inl e \<Rightarrow> Inl e
            | Inr _ \<Rightarrow>
                (case load_names (''train_dset'' # bound_at_264)
                        [''VQAClassificationDataset'', ''image_features_reader'', ''tokenizer''] of
                   Inl e \<Rightarrow> Inl e
                 | Inr _ \<Rightarrow> Inr (''train'', ''val'')))
      else if split a = ''trainval''
      then (case load_names bound_at_264
                   [''VQAClassificationDataset'', ''image_features_reader_train'', ''tokenizer''] of
              Inl e \<Rightarrow> Inl e
            | Inr _ \<Rightarrow>
                (case load_names (''train_dset'' # bound_at_264)
                        [''VQAClassificationDataset'', ''image_features_reader'', ''tokenizer''] of
                   Inl e \<Rightarrow> Inl e
                 | Inr _ \<Rightarrow> Inr (''trainval'', ''minval'')))
      else Inl AssertionError)"

text \<open>
  \<open>main\<close> up to the data sets. Lines 184--222 and 247--261 touch the file system, the
  devices and the libraries only and are taken to succeed. \<open>rest\<close> stands for lines
  280--518, which build the model and the optimizer and run the training loop; it is
  given the arguments and the data sets.
\<close>

definition main :: "args \<Rightarrow> (args \<Rightarrow> string \<times> string \<Rightarrow> error + 'r) \<Rightarrow> error + 'r" where
  "main a rest =
     (case check_accumulation a of
        Inl e \<Rightarrow> Inl e
      | Inr _ \<Rightarrow>
          (let a' = a\<lparr>train_batch_size :=
                          train_batch_size a div gradient_accumulation_steps a\<rparr>
           in if \<not> do_train a' then Inl ValueError_do_train
              else (case load_datasets a' of
                      Inl e \<Rightarrow> Inl e
                    | Inr dsets \<Rightarrow> rest a' dsets)))"

section \<open>The learning-rate schedule (lines 560--570)\<close>

text \<open>
  \<open>bisect\<close> of the standard library is \<open>bisect_right\<close>: a binary search for the
  insertion point to the right of any entry equal to \<open>x\<close>.
\<close>

function bisect_right :: "int list \<Rightarrow> int \<Rightarrow> nat \<Rightarrow> nat \<Rightarrow> nat" where
  "bisect_right a x lo hi =
     (if lo < hi
      then (let mid = (lo + hi) div 2
            in if x < a ! mid then bisect_right a x lo mid else bisect_right a x (mid + 1) hi)
      else lo)"
  by pat_completeness auto
termination
  by (relation "measure (\<lambda>(a, x, lo, hi). hi - lo)") auto

declare bisect_right.simps [simp del]

definition bisect :: "int list \<Rightarrow> int \<Rightarrow> nat" where
  "bisect a x = bisect_right a x 0 (length a)"

text \<open>Line 569 searches the empty list; \<open>lr_steps\<close> of line 564 is bound and not read.\<close>

definition lr_lambda_update :: "int \<Rightarrow> real" where
  "lr_lambda_update i_iter =
     (let warmup_iterations = (1000 :: int);
          warmup_factor = (0.2 :: real);
          lr_ratio = (0.1 :: real);
          lr_steps = [15000, 18000, 20000, 21000 :: int]
      in if i_iter \<le> warmup_iterations
         then (let alpha = real_of_int i_iter / real_of_int warmup_iterations
               in warmup_factor * (1.0 - alpha) + alpha)
         else (let idx = bisect [] i_iter
               in lr_ratio ^ idx))"

text \<open>
  The multiplier in the words of the specification: the ratio raised to the number of
  milestones less than or equal to the iteration.
\<close>

definition spec_milestone_multiplier :: "int list \<Rightarrow> real \<Rightarrow> int \<Rightarrow> real" where
  "spec_milestone_multiplier milestones ratio i = ratio ^ length (filter (\<lambda>m. m \<le> i) milestones)"

section \<open>Tensors and the tensor library\<close>

text \<open>
  A tensor is its shape and its elements in row-major order, as the library stores a
  contiguous tensor. It is well formed when it has as many elements as its shape says.
\<close>

datatype tensor = Tensor (shape: "nat list") (elems: "real list")

definition wf_tensor :: "tensor \<Rightarrow> bool" where
  "wf_tensor t = (length (elems t) = prod_list (shape t))"

definition dim :: "tensor \<Rightarrow> nat" where
  "dim t = length (shape t)"

text \<open>\<open>t.size(d)\<close>.\<close>

definition size_at :: "tensor \<Rightarrow> nat \<Rightarrow> error + nat" where
  "size_at t d = (if d < dim t then Inr (shape t ! d) else Inl IndexError)"

text \<open>\<open>t.sum()\<close>.\<close>

definition tensor_sum :: "tensor \<Rightarrow> real" where
  "tensor_sum t = sum_list (elems t)"

text \<open>The first \<open>n\<close> consecutive blocks of \<open>c\<close> elements.\<close>

fun chunks :: "nat \<Rightarrow> nat \<Rightarrow> 'a list \<Rightarrow> 'a list list" where
  "chunks 0 c xs = []"
| "chunks (Suc n) c xs = take c xs # chunks n c (drop c xs)"

text \<open>The rows of a two-dimensional tensor.\<close>

definition rows_of :: "tensor \<Rightarrow> real list list" where
  "rows_of t = (case shape t of [b, c] \<Rightarrow> chunks b c (elems t) | _ \<Rightarrow> [])"

text \<open>The index of the first greatest element.\<close>

fun argmax :: "real list \<Rightarrow> nat" where
  "argmax [] = 0"
| "argmax [x] = 0"
| "argmax (x # y # ys) = (let k = argmax (y # ys) in if (y # ys) ! k \<le> x then 0 else Suc k)"

text \<open>
  \<open>torch.max(t, 1)\<close>: the greatest value of every row and its index. The library
  rejects a dimension that the tensor does not have and a reduction over no elements.
\<close>

definition torch_max_dim1 :: "tensor \<Rightarrow> error + (real list \<times> nat list)" where
  "torch_max_dim1 t =
     (case shape t of
        [] \<Rightarrow> Inl IndexError
      | [n] \<Rightarrow> Inl IndexError
      | [b, c] \<Rightarrow>
          if c = 0 then Inl IndexError
          else Inr (map (\<lambda>r. r ! argmax r) (rows_of t), map argmax (rows_of t))
      | _ \<Rightarrow> Inl NotModelled)"

text \<open>\<open>torch.zeros(*size)\<close>.\<close>

definition torch_zeros :: "nat list \<Rightarrow> tensor" where
  "torch_zeros sz = Tensor sz (replicate (prod_list sz) 0)"

text \<open>
  \<open>self.scatter_(1, index.view(-1, 1), v)\<close> for a vector \<open>index\<close>: entry \<open>index[i]\<close>
  of row \<open>i\<close> becomes \<open>v\<close>. The library wants \<open>self\<close> two-dimensional like the viewed
  index, no more index rows than rows, and every index within the row.
\<close>

fun scatter_rows :: "real list list \<Rightarrow> nat list \<Rightarrow> real \<Rightarrow> real list list" where
  "scatter_rows (r # rs) (i # idx) v = r[i := v] # scatter_rows rs idx v"
| "scatter_rows rs idx v = rs"

definition scatter_dim1 :: "tensor \<Rightarrow> nat list \<Rightarrow> real \<Rightarrow> error + tensor" where
  "scatter_dim1 self idx v =
     (case shape self of
        [b, c] \<Rightarrow>
          if length idx \<le> b \<and> (\<forall>i \<in> set idx. i < c)
          then Inr (Tensor [b, c] (concat (scatter_rows (rows_of self) idx v)))
          else Inl RuntimeError
      | _ \<Rightarrow> Inl RuntimeError)"

text \<open>\<open>a * b\<close> on tensors of one shape; broadcasting is not modelled.\<close>

definition tensor_mul :: "tensor \<Rightarrow> tensor \<Rightarrow> error + tensor" where
  "tensor_mul a b =
     (if shape a = shape b then Inr (Tensor (shape a) (map2 (*) (elems a) (elems b)))
      else Inl NotModelled)"

text \<open>The binary cross-entropy of one logit against one target, in the stable form.\<close>

definition bce_elem :: "real \<Rightarrow> real \<Rightarrow> real" where
  "bce_elem x y = max x 0 - x * y + ln (1 + exp (- \<bar>x\<bar>))"

text \<open>
  \<open>F.binary_cross_entropy_with_logits(input, target)\<close> with its default reduction, the
  mean over all elements. The library compares the sizes first; the mean of no
  elements is NaN.
\<close>

definition binary_cross_entropy_with_logits :: "tensor \<Rightarrow> tensor \<Rightarrow> error + real" where
  "binary_cross_entropy_with_logits input target =
     (if shape target \<noteq> shape input then Inl ValueError_size
      else if elems input = [] then Inl NaN_result
      else Inr (sum_list (map2 bce_elem (elems input) (elems target))
                / real (length (elems input))))"

section \<open>Loss and score (lines 547--558)\<close>

definition instance_bce_with_logits :: "tensor \<Rightarrow> tensor \<Rightarrow> error + real" where
  "instance_bce_with_logits logits labels =
     (if dim logits \<noteq> 2 then Inl AssertionError
      else (case binary_cross_entropy_with_logits logits labels of
              Inl e \<Rightarrow> Inl e
            | Inr loss \<Rightarrow>
                (case size_at labels 1 of
                   Inl e \<Rightarrow> Inl e
                 | Inr n \<Rightarrow> Inr (loss * real n))))"

definition compute_score_with_logits :: "tensor \<Rightarrow> tensor \<Rightarrow> error + tensor" where
  "compute_score_with_logits logits labels =
     (case torch_max_dim1 logits of
        Inl e \<Rightarrow> Inl e
      | Inr (values, indices) \<Rightarrow>
          (let one_hots = torch_zeros (shape labels)
           in case scatter_dim1 one_hots indices 1 of
                Inl e \<Rightarrow> Inl e
              | Inr one_hots' \<Rightarrow> tensor_mul one_hots' labels))"

section \<open>Evaluation (lines 529--545)\<close>

text \<open>
  The model is a collaborator: \<open>model g x\<close> is its output on the inputs \<open>x\<close> of a batch
  when called with gradient tracking \<open>g\<close>. A batch is its inputs and its target.
\<close>

text \<open>Lines 533--541: the body of the loop, for one batch.\<close>

definition evaluate_batch ::
  "(bool \<Rightarrow> 'x \<Rightarrow> tensor) \<Rightarrow> 'x \<times> tensor \<Rightarrow> real \<times> real \<times> nat
     \<Rightarrow> error + (real \<times> real \<times> nat)" where
  "evaluate_batch model batch acc =
     (case (batch, acc) of
        ((x, target), (score, upper_bound, num_data)) \<Rightarrow>
          (let pred = model False x
           in case compute_score_with_logits pred target of
                Inl e \<Rightarrow> Inl e
              | Inr scores \<Rightarrow>
                  (let batch_score = tensor_sum scores
                   in case torch_max_dim1 target of
                        Inl e \<Rightarrow> Inl e
                      | Inr (values, indices) \<Rightarrow>
                          (case size_at pred 0 of
                             Inl e \<Rightarrow> Inl e
                           | Inr n \<Rightarrow>
                               Inr (score + batch_score,
                                    upper_bound + sum_list values,
                                    num_data + n)))))"

fun evaluate_batches ::
  "(bool \<Rightarrow> 'x \<Rightarrow> tensor) \<Rightarrow> ('x \<times> tensor) list \<Rightarrow> real \<times> real \<times> nat
     \<Rightarrow> error + (real \<times> real \<times> nat)" where
  "evaluate_batches model [] acc = Inr acc"
| "evaluate_batches model (batch # batches) acc =
     (case evaluate_batch model batch acc of
        Inl e \<Rightarrow> Inl e
      | Inr acc' \<Rightarrow> evaluate_batches model batches acc')"

text \<open>
  \<open>evaluate(args, model, dataloader)\<close>; \<open>dataset_len\<close> is \<open>len(dataloader.dataset)\<close>. The
  first division is between Python numbers and raises on zero.
\<close>

definition evaluate ::
  "(bool \<Rightarrow> 'x \<Rightarrow> tensor) \<Rightarrow> ('x \<times> tensor) list \<Rightarrow> nat \<Rightarrow> error + (real \<times> real)" where
  "evaluate model dataloader dataset_len =
     (case evaluate_batches model dataloader (0, 0, 0) of
        Inl e \<Rightarrow> Inl e
      | Inr (score, upper_bound, num_data) \<Rightarrow>
          if dataset_len = 0 then Inl ZeroDivisionError
          else Inr (score / real dataset_len, upper_bound / real dataset_len))"

section \<open>Observations on a run\<close>

text \<open>The losses that a list of events hands to a backward pass.\<close>

fun backward_args :: "event list \<Rightarrow> real list" where
  "backward_args [] = []"
| "backward_args (Backward l # evs) = l # backward_args evs"
| "backward_args (FP16_Backward l # evs) = l # backward_args evs"
| "backward_args (_ # evs) = backward_args evs"

text \<open>How many times a list of events calls \<open>optimizer.step()\<close>.\<close>

definition optimizer_steps :: "event list \<Rightarrow> nat" where
  "optimizer_steps evs = length (filter (\<lambda>e. e = OptimizerStep) evs)"

text \<open>
  The configurations on which no pass through the loop body raises: the modulus of line
  459 is not zero and, in reduced precision, the schedule of line 463 is bound and its
  divisor is not zero.
\<close>

definition loop_runs :: "args \<Rightarrow> loop_env \<Rightarrow> bool" where
  "loop_runs a env =
     (gradient_accumulation_steps a \<noteq> 0 \<and>
      (fp16 a \<longrightarrow> warmup_linear env \<noteq> None \<and> num_train_optimization_steps env \<noteq> 0))"

text \<open>The score of one example: the one-hot row of its prediction times its target.\<close>

definition score_row :: "real list \<Rightarrow> real list \<Rightarrow> real list" where
  "score_row p t = map2 (*) ((replicate (length t) 0)[argmax p := 1]) t"

text \<open>
  The examples of a batch, each as the row of the prediction and the row of the target,
  and the examples of a loader.
\<close>

definition batch_examples ::
  "(bool \<Rightarrow> 'x \<Rightarrow> tensor) \<Rightarrow> 'x \<times> tensor \<Rightarrow> (real list \<times> real list) list" where
  "batch_examples model batch = zip (rows_of (model False (fst batch))) (rows_of (snd batch))"

definition eval_examples ::
  "(bool \<Rightarrow> 'x \<Rightarrow> tensor) \<Rightarrow> ('x \<times> tensor) list \<Rightarrow> (real list \<times> real list) list" where
  "eval_examples model dataloader = concat (map (batch_examples model) dataloader)"

text \<open>
  A batch as the loader and the model make it: prediction and target are well-formed
  matrices of one shape, with at least one class.
\<close>

definition batch_ok :: "(bool \<Rightarrow> 'x \<Rightarrow> tensor) \<Rightarrow> 'x \<times> tensor \<Rightarrow> bool" where
  "batch_ok model batch =
     (case shape (snd batch) of
        [b, c] \<Rightarrow> shape (model False (fst batch)) = [b, c] \<and> 0 < c \<and>
                  wf_tensor (model False (fst batch)) \<and> wf_tensor (snd batch)
      | _ \<Rightarrow> False)"

section \<open>Concrete runs\<close>

definition args0 :: args where
  "args0 = \<lparr>gradient_accumulation_steps = 2, train_batch_size = 128, num_train_epochs = 30,
            learning_rate = 0.00005, warmup_proportion = 0.01, do_train = True, fp16 = False,
            loss_scale = 0, local_rank = -1, from_pretrained = False, split = ''train''\<rparr>"

definition env0 :: loop_env where
  "env0 = \<lparr>n_gpu = 1, num_train_optimization_steps = 60, warmup_linear = None,
           len_train_dataloader = 4\<rparr>"

definition st0 :: step_state where
  "st0 = \<lparr>global_step = 0, loss_tmp = 0, total_loss = 0, train_score = 0, nb_tr_examples = 0,
          nb_tr_steps = 0, param_group_lr = [0.00005, 0.00005]\<rparr>"

definition mb0 :: microbatch where
  "mb0 = \<lparr>mb_loss = 3, mb_score = 1, features_size0 = 64, question_size0 = 64\<rparr>"






definition st3 :: step_state where
  "st3 = st0\<lparr>global_step := 3\<rparr>"

text \<open>A command line with an accumulation-step count of zero.\<close>

definition args_K0 :: args where
  "args_K0 = args0\<lparr>gradient_accumulation_steps := 0\<rparr>"

text \<open>Later stages that would succeed if they were reached.\<close>

definition rest_ok :: "args \<Rightarrow> string \<times> string \<Rightarrow> error + unit" where
  "rest_ok a dsets = Inr ()"

text \<open>The examples of the specification: two predictions and a target.\<close>

definition L1 :: tensor where "L1 = Tensor [1, 3] [0.1, 0.9, 0.2]"

definition L2 :: tensor where "L2 = Tensor [1, 3] [0.9, 0.1, 0.2]"

definition T1 :: tensor where "T1 = Tensor [1, 3] [0, 1, 0]"

definition L0 :: tensor where "L0 = Tensor [1, 2] [0, 0]"

definition T0 :: tensor where "T0 = Tensor [1, 2] [1, 0]"

text \<open>A model and a loader of two batches, three examples in all.\<close>

definition model1 :: "bool \<Rightarrow> nat \<Rightarrow> tensor" where
  "model1 g x = (if x = 0 then Tensor [2, 3] [0.1, 0.9, 0.2, 0.9, 0.1, 0.2] else L2)"

definition loader1 :: "(nat \<times> tensor) list" where
  "loader1 = [(0, Tensor [2, 3] [0, 1, 0, 0.3, 1, 0.6]), (1, Tensor [1, 3] [0.5, 0, 0])]"

section \<open>The accumulate-or-fire decision\<close>

lemma periodic_log_steps:
  "periodic_log i s st = (logs, st') \<Longrightarrow> optimizer_steps logs = 0 \<and> global_step st' = global_step st
     \<and> param_group_lr st' = param_group_lr st"
  by (auto simp: periodic_log_def optimizer_steps_def split: if_splits)

lemma fire_branch_Inr:
  "fire_branch a env st = Inr (evs, st') \<Longrightarrow>
     evs = [ClipGradNorm 0.25, OptimizerStep, ZeroGrad] \<and> global_step st' = global_step st + 1"
  by (auto simp: fire_branch_def set_lr_def Let_def split: if_splits sum.splits option.splits)

lemma optimizer_steps_append: "optimizer_steps (xs @ ys) = optimizer_steps xs + optimizer_steps ys"
  by (simp add: optimizer_steps_def)

lemma micro_batch_Inr:
  assumes "micro_batch a env epochId step b st = Inr (ev, st')"
  shows "gradient_accumulation_steps a \<noteq> 0"
    and "optimizer_steps ev = (if (step + 1) mod gradient_accumulation_steps a = 0 then 1 else 0)"
    and "global_step st' = global_step st + (if (step + 1) mod gradient_accumulation_steps a = 0 then 1 else 0)"
  using assms
  by (auto simp: micro_batch_def Let_def optimizer_steps_append split: if_splits sum.splits prod.splits
      dest!: fire_branch_Inr periodic_log_steps) (auto simp: optimizer_steps_def)

lemma fires_nat:
  assumes "1 \<le> (K::int)"
  shows "((int s + 1) mod K = 0) = (Suc s mod nat K = 0)"
proof -
  obtain k where k: "K = int k" using assms by (metis int_nat_eq zero_le_one order_trans)
  have "(int s + 1) mod K = int (Suc s mod k)" unfolding k by (simp add: zmod_int add.commute)
  then show ?thesis using k by simp
qed

lemma train_steps_Inr:
  assumes "1 \<le> gradient_accumulation_steps a"
    and "train_steps a env e s bs st = Inr (evs, st')"
  shows "length evs = length bs
       \<and> (\<forall>i<length bs. optimizer_steps (evs ! i) =
             (if (int (s + i) + 1) mod gradient_accumulation_steps a = 0 then 1 else 0))
       \<and> global_step st' = global_step st + int (optimizer_steps (concat evs))
       \<and> optimizer_steps (concat evs) =
           (s + length bs) div nat (gradient_accumulation_steps a) - s div nat (gradient_accumulation_steps a)"
  using assms(2)
proof (induction bs arbitrary: s st evs st')
  case Nil
  then show ?case by (simp add: optimizer_steps_def)
next
  case (Cons b bs)
  let ?K = "gradient_accumulation_steps a"
  from Cons.prems obtain ev st1 evs1 where
    mb: "micro_batch a env e (int s) b st = Inr (ev, st1)" and
    rest: "train_steps a env e (Suc s) bs st1 = Inr (evs1, st')" and
    evs: "evs = ev # evs1"
    by (auto split: sum.splits prod.splits)
  note ih = Cons.IH [OF rest]
  note m = micro_batch_Inr [OF mb]
  have len: "length evs = length (b # bs)" using ih evs by simp
  have each: "\<forall>i<length (b # bs). optimizer_steps (evs ! i) =
             (if (int (s + i) + 1) mod ?K = 0 then 1 else 0)"
  proof (intro allI impI)
    fix i assume i: "i < length (b # bs)"
    show "optimizer_steps (evs ! i) = (if (int (s + i) + 1) mod ?K = 0 then 1 else 0)"
    proof (cases i)
      case 0
      then show ?thesis using m(2) evs by simp
    next
      case (Suc j)
      then have "j < length bs" using i by simp
      with ih have "optimizer_steps (evs1 ! j) = (if (int (Suc s + j) + 1) mod ?K = 0 then 1 else 0)"
        by blast
      then show ?thesis using Suc evs by simp
    qed
  qed
  have cnt0: "optimizer_steps ev = Suc s div nat ?K - s div nat ?K"
    using m(2) fires_nat [OF assms(1), of s] by (simp add: div_Suc)
  have mono: "s div nat ?K \<le> Suc s div nat ?K" "Suc s div nat ?K \<le> (Suc s + length bs) div nat ?K"
    by (simp_all add: div_le_mono)
  have cnt: "optimizer_steps (concat evs) =
           (s + length (b # bs)) div nat ?K - s div nat ?K"
    using ih cnt0 mono evs by (simp add: optimizer_steps_append)
  have gs: "global_step st' = global_step st + int (optimizer_steps (concat evs))"
    using ih m(3) m(2) evs by (simp add: optimizer_steps_append)
  show ?case using len each cnt gs by blast
qed

lemma fire_branch_total:
  "fp16 a \<longrightarrow> warmup_linear env \<noteq> None \<and> num_train_optimization_steps env \<noteq> 0 \<Longrightarrow>
    \<exists>r. fire_branch a env st = Inr r"
  by (auto simp: fire_branch_def set_lr_def Let_def split: option.splits)

lemma micro_batch_total:
  assumes "loop_runs a env"
  shows "\<exists>r. micro_batch a env e s b st = Inr r"
proof -
  let ?st2 = "st\<lparr>total_loss := total_loss st + mb_loss b * real_of_int (features_size0 b),
                    train_score := train_score st + mb_score b,
                    loss_tmp := loss_tmp st + backward_loss a env (mb_loss b),
                     nb_tr_examples := nb_tr_examples st + question_size0 b,
                     nb_tr_steps := nb_tr_steps st + 1\<rparr>"
  from assms obtain r where "fire_branch a env ?st2 = Inr r"
    using fire_branch_total [of a env ?st2] by (auto simp: loop_runs_def)
  with assms show ?thesis
    by (auto simp: micro_batch_def Let_def loop_runs_def split: prod.splits)
qed

lemma train_steps_total:
  assumes "loop_runs a env"
  shows "\<exists>r. train_steps a env e s bs st = Inr r"
proof (induction bs arbitrary: s st)
  case Nil
  show ?case by simp
next
  case (Cons b bs)
  obtain ev st1 where mb: "micro_batch a env e (int s) b st = Inr (ev, st1)"
    using micro_batch_total [OF assms, of e "int s" b st] by auto
  obtain r where "train_steps a env e (Suc s) bs st1 = Inr r"
    using Cons.IH by blast
  with mb show ?case by (cases r) simp
qed

text \<open>
  What holds of every epoch that runs through: for an accumulation factor \<open>K \<ge> 1\<close> an
  epoch of \<open>N\<close> micro-batches calls \<open>optimizer.step()\<close> on micro-batch \<open>i\<close> exactly
  when \<open>(i + 1) mod K = 0\<close>, hence \<open>N div K\<close> times, and on every micro-batch when
  \<open>K = 1\<close>; the epoch runs through whenever \<open>loop_runs\<close> holds, in particular in full
  precision.
\<close>

lemma optimizer_fires_every_K:
  assumes K: "1 \<le> gradient_accumulation_steps a"
  shows "(loop_runs a env \<longrightarrow> (\<exists>r. train_epoch a env epochId bs st = Inr r)) \<and>
         (\<forall>evs st'. train_epoch a env epochId bs st = Inr (evs, st') \<longrightarrow>
            length evs = length bs \<and>
            (\<forall>i<length bs. (OptimizerStep \<in> set (evs ! i)) =
                             ((int i + 1) mod gradient_accumulation_steps a = 0)) \<and>
            optimizer_steps (concat evs) = length bs div nat (gradient_accumulation_steps a) \<and>
            (gradient_accumulation_steps a = 1 \<longrightarrow> (\<forall>i<length bs. OptimizerStep \<in> set (evs ! i))))"
proof (intro conjI allI impI)
  assume "loop_runs a env"
  then show "\<exists>r. train_epoch a env epochId bs st = Inr r"
    unfolding train_epoch_def by (rule train_steps_total)
next
  fix evs st'
  assume run: "train_epoch a env epochId bs st = Inr (evs, st')"
  note r = train_steps_Inr [OF K run [unfolded train_epoch_def]]
  show "length evs = length bs" using r by simp
  show "optimizer_steps (concat evs) = length bs div nat (gradient_accumulation_steps a)"
    using r by simp
  have mem: "(OptimizerStep \<in> set (evs ! i)) = ((int i + 1) mod gradient_accumulation_steps a = 0)"
    if "i < length bs" for i
  proof -
    have "optimizer_steps (evs ! i) = (if (int i + 1) mod gradient_accumulation_steps a = 0 then 1 else 0)"
      using r that by simp
    moreover have "(OptimizerStep \<in> set (evs ! i)) = (optimizer_steps (evs ! i) \<noteq> 0)"
      by (simp add: optimizer_steps_def filter_empty_conv)
    ultimately show ?thesis by simp
  qed
  show "(OptimizerStep \<in> set (evs ! i)) = ((int i + 1) mod gradient_accumulation_steps a = 0)"
    if "i < length bs" for i using mem that .
  show "OptimizerStep \<in> set (evs ! i)" if "gradient_accumulation_steps a = 1" "i < length bs" for i
    using mem that by simp
qed

lemma optimizer_fires_every_K_witness:
  "\<exists>evs st'. train_epoch args0 env0 0 [mb0, mb0, mb0, mb0, mb0] st0 = Inr (evs, st') \<and>
     length evs = 5 \<and> OptimizerStep \<notin> set (evs ! 0) \<and> OptimizerStep \<in> set (evs ! 1) \<and>
     optimizer_steps (concat evs) = 2"
proof -
  have K: "1 \<le> gradient_accumulation_steps args0" by (simp add: args0_def)
  have runs: "loop_runs args0 env0" by (simp add: loop_runs_def args0_def env0_def)
  from optimizer_fires_every_K [OF K, of env0 0 "[mb0, mb0, mb0, mb0, mb0]" st0] runs
  obtain evs st' where run: "train_epoch args0 env0 0 [mb0, mb0, mb0, mb0, mb0] st0 = Inr (evs, st')"
    by fastforce
  with optimizer_fires_every_K [OF K, of env0 0 "[mb0, mb0, mb0, mb0, mb0]" st0]
  have "length evs = 5 \<and> (\<forall>i<5. (OptimizerStep \<in> set (evs ! i)) = ((int i + 1) mod 2 = 0)) \<and>
        optimizer_steps (concat evs) = 5 div 2"
    by (simp add: args0_def)
  then have "length evs = 5" "(OptimizerStep \<in> set (evs ! 0)) = ((int 0 + 1) mod 2 = 0)"
     "(OptimizerStep \<in> set (evs ! 1)) = ((int 1 + 1) mod 2 = 0)"
     "optimizer_steps (concat evs) = 2" by simp_all
  with run show ?thesis by simp
qed


section \<open>The global step counter\<close>

lemma run_epochs_Inr:
  assumes "1 \<le> gradient_accumulation_steps a"
    and "run_epochs a env dl epoch_end es st = Inr (evss, st')"
  shows "global_step st' =
           global_step st + (\<Sum>e\<leftarrow>es. int (length (dl e) div nat (gradient_accumulation_steps a)))"
  using assms(2)
proof (induction es arbitrary: st evss st')
  case Nil
  then show ?case by simp
next
  case (Cons e es)
  from Cons.prems obtain evs st1 evss1 where
    ep: "train_epoch a env (int e) (dl e) st = Inr (evs, st1)" and
    rest: "run_epochs a env dl epoch_end es st1 = Inr (evss1, st')"
    by (auto split: sum.splits prod.splits option.splits)
  have "global_step st1 = global_step st + int (length (dl e) div nat (gradient_accumulation_steps a))"
    using train_steps_Inr [OF assms(1) ep [unfolded train_epoch_def]] by simp
  with Cons.IH [OF rest] show ?case by simp
qed

lemma run_epochs_total:
  assumes "loop_runs a env" and "\<forall>e s. epoch_end e s = None"
  shows "\<exists>r. run_epochs a env dl epoch_end es st = Inr r"
proof (induction es arbitrary: st)
  case Nil
  show ?case by simp
next
  case (Cons e es)
  obtain evs st1 where ep: "train_epoch a env (int e) (dl e) st = Inr (evs, st1)"
    using train_steps_total [OF assms(1)] unfolding train_epoch_def by (metis surj_pair)
  obtain r where r: "run_epochs a env dl epoch_end es st1 = Inr r" using Cons.IH by blast
  have ee: "epoch_end e st1 = None" using assms(2) by simp
  show ?case using ep ee r by (cases r) simp
qed

text \<open>
  C4. For \<open>K \<ge> 1\<close> a micro-batch that completes advances \<open>global_step\<close> by the number
  of optimizer steps it made, one in the fire branch and none otherwise, so the counter
  never decreases; an epoch of \<open>N\<close> micro-batches advances it by \<open>N div K\<close>, and a run
  by the sum of that over its epochs. The run completes whenever \<open>loop_runs\<close> holds and
  the end of no epoch raises.
\<close>

theorem global_step_counts_logical_steps:
  assumes K: "1 \<le> gradient_accumulation_steps a"
  shows "(\<forall>ev st'. micro_batch a env epochId step b st = Inr (ev, st') \<longrightarrow>
            global_step st' = global_step st + int (optimizer_steps ev) \<and>
            optimizer_steps ev = (if (step + 1) mod gradient_accumulation_steps a = 0 then 1 else 0) \<and>
            global_step st \<le> global_step st')
       \<and> (\<forall>evs st'. train_epoch a env epochId bs st = Inr (evs, st') \<longrightarrow>
            global_step st' = global_step st + int (length bs div nat (gradient_accumulation_steps a)))
       \<and> (\<forall>evss st'. run_epochs a env dl epoch_end es st = Inr (evss, st') \<longrightarrow>
            global_step st \<le> global_step st' \<and>
            global_step st' =
              global_step st + (\<Sum>e\<leftarrow>es. int (length (dl e) div nat (gradient_accumulation_steps a))))
       \<and> (loop_runs a env \<and> (\<forall>e s. epoch_end e s = None) \<longrightarrow>
            (\<exists>r. run_epochs a env dl epoch_end es st = Inr r))"
proof (intro conjI allI impI)
  fix ev st' assume mb: "micro_batch a env epochId step b st = Inr (ev, st')"
  note m = micro_batch_Inr [OF mb]
  show "optimizer_steps ev = (if (step + 1) mod gradient_accumulation_steps a = 0 then 1 else 0)"
    using m(2) .
  show "global_step st' = global_step st + int (optimizer_steps ev)"
    using m(2,3) by simp
  show "global_step st \<le> global_step st'" using m(3) by simp
next
  fix evs st' assume "train_epoch a env epochId bs st = Inr (evs, st')"
  from train_steps_Inr [OF K this [unfolded train_epoch_def]]
  show "global_step st' = global_step st + int (length bs div nat (gradient_accumulation_steps a))"
    by simp
next
  fix evss st' assume run: "run_epochs a env dl epoch_end es st = Inr (evss, st')"
  show eq: "global_step st' =
      global_step st + (\<Sum>e\<leftarrow>es. int (length (dl e) div nat (gradient_accumulation_steps a)))"
    by (rule run_epochs_Inr [OF K run])
  have "0 \<le> (\<Sum>e\<leftarrow>es. int (length (dl e) div nat (gradient_accumulation_steps a)))"
    by (rule sum_list_nonneg) auto
  with eq show "global_step st \<le> global_step st'" by simp
next
  assume "loop_runs a env \<and> (\<forall>e s. epoch_end e s = None)"
  then show "\<exists>r. run_epochs a env dl epoch_end es st = Inr r"
    using run_epochs_total by blast
qed

theorem global_step_counts_logical_steps_witness:
  "\<exists>evss st'. run_epochs args0 env0 (\<lambda>e. [mb0, mb0, mb0, mb0, mb0]) (\<lambda>e s. None) [0, 1] st0
       = Inr (evss, st') \<and> global_step st' = 4"
proof -
  have K: "1 \<le> gradient_accumulation_steps args0" by (simp add: args0_def)
  have runs: "loop_runs args0 env0" by (simp add: loop_runs_def args0_def env0_def)
  note t = global_step_counts_logical_steps [OF K, of env0 0 0 mb0 st0 "[]" "\<lambda>e. [mb0, mb0, mb0, mb0, mb0]"
      "\<lambda>e s. None" "[0, 1]"]
  note tot = t [THEN conjunct2, THEN conjunct2, THEN conjunct2]
  note cnt = t [THEN conjunct2, THEN conjunct2, THEN conjunct1]
  from tot runs obtain r where
    "run_epochs args0 env0 (\<lambda>e. [mb0, mb0, mb0, mb0, mb0]) (\<lambda>e s. None) [0, 1] st0 = Inr r"
    by blast
  then obtain evss st' where
    run: "run_epochs args0 env0 (\<lambda>e. [mb0, mb0, mb0, mb0, mb0]) (\<lambda>e s. None) [0, 1] st0 = Inr (evss, st')"
    by (cases r) simp
  from cnt run have "global_step st' =
      global_step st0 + (\<Sum>e\<leftarrow>[0, 1::nat]. int (length [mb0, mb0, mb0, mb0, mb0] div nat (gradient_accumulation_steps args0)))"
    by blast
  then have "global_step st' = 4" by (simp add: st0_def args0_def)
  with run show ?thesis by blast
qed

section \<open>The loss handed to the backward pass\<close>

lemma backward_loss_div:
  assumes "1 \<le> gradient_accumulation_steps a"
  shows "backward_loss a env loss = loss / real_of_int (gradient_accumulation_steps a)"
proof (cases "gradient_accumulation_steps a = 1")
  case True
  then show ?thesis by (simp add: backward_loss_def tensor0_mean_def)
next
  case False
  with assms have "1 < gradient_accumulation_steps a" by simp
  then show ?thesis by (simp add: backward_loss_def tensor0_mean_def)
qed

lemma backward_args_append: "backward_args (xs @ ys) = backward_args xs @ backward_args ys"
  by (induction xs rule: backward_args.induct) simp_all

lemma micro_batch_backward:
  assumes "micro_batch a env epochId step b st = Inr (ev, st')"
  shows "backward_args ev = [backward_loss a env (mb_loss b)]"
  using assms
  by (auto simp: micro_batch_def Let_def periodic_log_def
      split: if_splits sum.splits prod.splits dest!: fire_branch_Inr)

lemma train_steps_backward:
  assumes "train_steps a env e s bs st = Inr (evs, st')"
  shows "map backward_args evs = map (\<lambda>b. [backward_loss a env (mb_loss b)]) bs"
  using assms
proof (induction bs arbitrary: s st evs st')
  case Nil
  then show ?case by simp
next
  case (Cons b bs)
  from Cons.prems obtain ev st1 evs1 where
    mb: "micro_batch a env e (int s) b st = Inr (ev, st1)" and
    rest: "train_steps a env e (Suc s) bs st1 = Inr (evs1, st')" and
    evs: "evs = ev # evs1"
    by (auto split: sum.splits prod.splits)
  show ?case using micro_batch_backward [OF mb] Cons.IH [OF rest] evs by simp
qed

lemma sum_list_singletons: "sum_list (concat (map (\<lambda>b. [f b]) bs)) = sum_list (map f bs)"
  by (induction bs) simp_all

text \<open>
  C5. For \<open>K \<ge> 1\<close> the loss handed to the backward pass is the computed loss divided by
  \<open>K\<close>, the computed loss itself when \<open>K = 1\<close>; in an epoch that completes, micro-batch
  \<open>i\<close> makes one backward call, with that value, and over a logical batch of \<open>K\<close>
  micro-batches the values add up to the mean of the computed losses.
\<close>

theorem backward_loss_is_loss_over_K:
  assumes K: "1 \<le> gradient_accumulation_steps a"
  shows "backward_loss a env loss = loss / real_of_int (gradient_accumulation_steps a)
       \<and> (gradient_accumulation_steps a = 1 \<longrightarrow> backward_loss a env loss = loss)
       \<and> (\<forall>evs st'. train_epoch a env epochId bs st = Inr (evs, st') \<longrightarrow>
            map backward_args evs =
              map (\<lambda>b. [mb_loss b / real_of_int (gradient_accumulation_steps a)]) bs \<and>
            (int (length bs) = gradient_accumulation_steps a \<longrightarrow>
               sum_list (concat (map backward_args evs)) =
                 sum_list (map mb_loss bs) / real (length bs)))"
proof (intro conjI allI impI)
  show d: "backward_loss a env loss = loss / real_of_int (gradient_accumulation_steps a)"
    by (rule backward_loss_div [OF K])
  show "backward_loss a env loss = loss" if "gradient_accumulation_steps a = 1"
    using d that by simp
next
  fix evs st' assume run: "train_epoch a env epochId bs st = Inr (evs, st')"
  have "map backward_args evs = map (\<lambda>b. [backward_loss a env (mb_loss b)]) bs"
    using run unfolding train_epoch_def by (rule train_steps_backward)
  then show m: "map backward_args evs =
      map (\<lambda>b. [mb_loss b / real_of_int (gradient_accumulation_steps a)]) bs"
    by (simp add: backward_loss_div [OF K])
  show "sum_list (concat (map backward_args evs)) = sum_list (map mb_loss bs) / real (length bs)"
    if len: "int (length bs) = gradient_accumulation_steps a"
  proof -
    have "sum_list (concat (map backward_args evs)) =
        sum_list (map (\<lambda>b. mb_loss b / real_of_int (gradient_accumulation_steps a)) bs)"
      unfolding m by (rule sum_list_singletons)
    also have "\<dots> = sum_list (map mb_loss bs) / real_of_int (gradient_accumulation_steps a)"
      by (induction bs) (simp_all add: add_divide_distrib)
    also have "real_of_int (gradient_accumulation_steps a) = real (length bs)"
      using len [symmetric] by simp
    finally show ?thesis .
  qed
qed

theorem backward_loss_is_loss_over_K_witness:
  "backward_loss args0 env0 3 = 3 / 2 \<and>
   (\<exists>evs st'. train_epoch args0 env0 0 [mb0, mb0] st0 = Inr (evs, st') \<and>
      map backward_args evs = [[3 / 2], [3 / 2]] \<and>
      sum_list (concat (map backward_args evs)) = 3)"
proof -
  have K: "1 \<le> gradient_accumulation_steps args0" by (simp add: args0_def)
  note t = backward_loss_is_loss_over_K [OF K, of env0 3 0 "[mb0, mb0]" st0]
  have a: "backward_loss args0 env0 3 = 3 / 2"
    using t [THEN conjunct1] by (simp add: args0_def)
  have "loop_runs args0 env0" by (simp add: loop_runs_def args0_def env0_def)
  then obtain r where "train_epoch args0 env0 0 [mb0, mb0] st0 = Inr r"
    unfolding train_epoch_def using train_steps_total by blast
  then obtain evs st' where run: "train_epoch args0 env0 0 [mb0, mb0] st0 = Inr (evs, st')"
    by (cases r) simp
  from t [THEN conjunct2, THEN conjunct2] run
  have "map backward_args evs = map (\<lambda>b. [mb_loss b / real_of_int (gradient_accumulation_steps args0)]) [mb0, mb0]"
    and "int (length [mb0, mb0]) = gradient_accumulation_steps args0 \<longrightarrow>
         sum_list (concat (map backward_args evs)) = sum_list (map mb_loss [mb0, mb0]) / real (length [mb0, mb0])"
    by blast+
  then have "map backward_args evs = [[3 / 2], [3 / 2]]"
    and "sum_list (concat (map backward_args evs)) = 3"
    by (simp_all add: args0_def mb0_def)
  with a run show ?thesis by auto
qed

section \<open>The learning-rate overwrite\<close>








section \<open>The schedule after warm-up\<close>

lemma bisect_empty: "bisect [] x = 0"
  by (simp add: bisect_def bisect_right.simps)

lemma lr_lambda_update_after_warmup: "1000 < i \<Longrightarrow> lr_lambda_update i = 1"
  by (simp add: lr_lambda_update_def bisect_empty)

text \<open>
  C2. After warm-up the code returns \<open>1\<close> at every iteration, also at and beyond the
  milestones, where the specification's rank lookup gives \<open>1 / 10\<close> at 15000 and
  \<open>1 / 10000\<close> at 21000.
\<close>

theorem lr_lambda_update_ignores_milestones:
  "lr_lambda_update 14999 = 1 \<and> lr_lambda_update 15000 = 1 \<and>
   lr_lambda_update 19000 = 1 \<and> lr_lambda_update 21000 = 1 \<and>
   spec_milestone_multiplier [15000, 18000, 20000, 21000] 0.1 15000 = 1 / 10 \<and>
   spec_milestone_multiplier [15000, 18000, 20000, 21000] 0.1 19000 = 1 / 100 \<and>
   spec_milestone_multiplier [15000, 18000, 20000, 21000] 0.1 21000 = 1 / 10000"
  by (simp add: lr_lambda_update_def bisect_empty spec_milestone_multiplier_def power_divide)

text \<open>On a sorted list the search of line 569 is the rank lookup of the specification.\<close>

lemma bisect_right_count:
  assumes "sorted a" and "lo \<le> hi" and "hi \<le> length a"
    and "\<forall>k<lo. a ! k \<le> x" and "\<forall>k. hi \<le> k \<and> k < length a \<longrightarrow> x < a ! k"
  shows "bisect_right a x lo hi = length (filter (\<lambda>m. m \<le> x) a)"
  using assms
proof (induction a x lo hi rule: bisect_right.induct)
  case (1 a x lo hi)
  show ?case
  proof (cases "lo < hi")
    case False
    with "1.prems" have eq: "lo = hi" by simp
    have "filter (\<lambda>m. m \<le> x) a = take lo a"
    proof -
      have "a = take lo a @ drop lo a" by simp
      moreover have "filter (\<lambda>m. m \<le> x) (take lo a) = take lo a"
        using "1.prems" by (auto simp: filter_id_conv in_set_conv_nth)
      moreover have "filter (\<lambda>m. m \<le> x) (drop lo a) = []"
        using "1.prems" eq by (auto simp: filter_empty_conv in_set_conv_nth not_le)
      ultimately show ?thesis by (metis append_Nil2 filter_append)
    qed
    then have "length (filter (\<lambda>m. m \<le> x) a) = lo" using "1.prems" eq by simp
    with False show ?thesis by (simp add: bisect_right.simps)
  next
    case True
    let ?mid = "(lo + hi) div 2"
    have mid: "lo \<le> ?mid" "?mid < hi" using True by auto
    show ?thesis
    proof (cases "x < a ! ?mid")
      case lt: True
      have "\<forall>k. ?mid \<le> k \<and> k < length a \<longrightarrow> x < a ! k"
      proof (intro allI impI)
        fix k assume k: "?mid \<le> k \<and> k < length a"
        then have "a ! ?mid \<le> a ! k" using "1.prems"(1) by (simp add: sorted_nth_mono)
        with lt show "x < a ! k" by simp
      qed
      with "1.IH"(1) [OF True refl lt] "1.prems" mid
      have "bisect_right a x lo ?mid = length (filter (\<lambda>m. m \<le> x) a)" by simp
      with True lt show ?thesis by (subst bisect_right.simps) (simp add: Let_def)
    next
      case ge: False
      have "\<forall>k<?mid + 1. a ! k \<le> x"
      proof (intro allI impI)
        fix k assume k: "k < ?mid + 1"
        then have "a ! k \<le> a ! ?mid" using "1.prems"(1,3) mid by (simp add: sorted_nth_mono)
        with ge show "a ! k \<le> x" by simp
      qed
      with "1.IH"(2) [OF True refl ge] "1.prems" mid
      have "bisect_right a x (?mid + 1) hi = length (filter (\<lambda>m. m \<le> x) a)" by simp
      with True ge show ?thesis by (subst bisect_right.simps) (simp add: Let_def)
    qed
  qed
qed

lemma bisect_is_rank:
  "sorted a \<Longrightarrow> ratio ^ bisect a x = spec_milestone_multiplier a ratio x"
  by (simp add: bisect_def spec_milestone_multiplier_def bisect_right_count)

section \<open>Start-up\<close>

lemma reader_train_unbound:
  "''image_features_reader_train'' \<notin> set main_assigned"
  "''image_features_reader_train'' \<notin> set module_globals"
  "''image_features_reader_train'' \<notin> set builtins_used"
  by (simp_all add: main_assigned_def bound_at_264_def module_globals_def builtins_used_def)

lemma load_reader_train:
  "load_name bound ''image_features_reader_train'' = Inl (NameError ''image_features_reader_train'')"
  using reader_train_unbound by (simp add: load_name_def)

lemma load_dataset_class: "load_name bound ''VQAClassificationDataset'' = Inr ()"
  by (simp add: load_name_def main_assigned_def bound_at_264_def module_globals_def)

lemma load_train_args:
  "load_names bound [''VQAClassificationDataset'', ''image_features_reader_train'', ''tokenizer'']
     = Inl (NameError ''image_features_reader_train'')"
  by (simp add: load_dataset_class load_reader_train)

lemma load_datasets_NameError:
  assumes "split a = ''train'' \<or> split a = ''trainval''"
  shows "load_datasets a = Inl (NameError ''image_features_reader_train'')"
  using assms unfolding load_datasets_def load_train_args by auto

text \<open>Past the accumulation check \<open>main\<close> ends in one of three errors, and never in \<open>rest\<close>.\<close>

lemma main_after_check:
  assumes "1 \<le> gradient_accumulation_steps a"
  shows "main a rest =
           (if \<not> do_train a then Inl ValueError_do_train
            else if split a = ''train'' \<or> split a = ''trainval''
            then Inl (NameError ''image_features_reader_train'')
            else Inl AssertionError)"
proof -
  let ?a = "a\<lparr>train_batch_size := train_batch_size a div gradient_accumulation_steps a\<rparr>"
  have l: "load_datasets ?a = load_datasets a" by (simp add: load_datasets_def)
  have c: "check_accumulation a = Inr ()" using assms by (simp add: check_accumulation_def)
  have n: "load_datasets a = Inl (NameError ''image_features_reader_train'')"
    if "split a = ''train'' \<or> split a = ''trainval''"
    using that by (rule load_datasets_NameError)
  have e: "load_datasets a = Inl AssertionError"
    if "\<not> (split a = ''train'' \<or> split a = ''trainval'')"
    using that by (simp add: load_datasets_def)
  show ?thesis using n e by (auto simp: main_def c l Let_def)
qed

text \<open>
  C9. With an accumulation-step count below 1 the check of lines 224--229 raises its
  \<open>ValueError\<close> and \<open>main\<close> ends with it whatever the later stages are, so none of them
  runs; with a count of at least 1 the check passes and \<open>main\<close> does not end with that
  error.
\<close>

theorem accumulation_check:
  "(gradient_accumulation_steps a < 1 \<longrightarrow>
      check_accumulation a = Inl (ValueError_accumulation (gradient_accumulation_steps a)) \<and>
      main a rest = Inl (ValueError_accumulation (gradient_accumulation_steps a)))
   \<and> (1 \<le> gradient_accumulation_steps a \<longrightarrow>
      check_accumulation a = Inr () \<and> main a rest \<noteq> Inl (ValueError_accumulation k))"
proof (intro conjI impI)
  assume "gradient_accumulation_steps a < 1"
  then show "check_accumulation a = Inl (ValueError_accumulation (gradient_accumulation_steps a))"
    and "main a rest = Inl (ValueError_accumulation (gradient_accumulation_steps a))"
    by (simp_all add: check_accumulation_def main_def)
next
  assume K: "1 \<le> gradient_accumulation_steps a"
  then show "check_accumulation a = Inr ()" by (simp add: check_accumulation_def)
  show "main a rest \<noteq> Inl (ValueError_accumulation k)"
    by (simp add: main_after_check [OF K])
qed

theorem accumulation_check_witness:
  "main args_K0 rest_ok = Inl (ValueError_accumulation 0) \<and>
   check_accumulation args0 = Inr () \<and> main args0 rest_ok \<noteq> Inl (ValueError_accumulation 2)"
proof -
  have "gradient_accumulation_steps args_K0 < 1" "gradient_accumulation_steps args_K0 = 0"
    by (simp_all add: args_K0_def args0_def)
  with accumulation_check [of args_K0 rest_ok]
  have "main args_K0 rest_ok = Inl (ValueError_accumulation 0)" by simp
  moreover have "1 \<le> gradient_accumulation_steps args0" by (simp add: args0_def)
  with accumulation_check [of args0 rest_ok 2]
  have "check_accumulation args0 = Inr () \<and> main args0 rest_ok \<noteq> Inl (ValueError_accumulation 2)"
    by simp
  ultimately show ?thesis by simp
qed

section \<open>Loading the data sets\<close>

text \<open>
  C10, as the code has it. When training is requested, the accumulation-step count is
  at least 1 and the split is \<open>train\<close> or \<open>trainval\<close>, \<open>main\<close> ends with the
  \<open>NameError\<close> of \<open>image_features_reader_train\<close>, a name that neither \<open>main\<close> nor the
  module binds, whatever the later stages are: the model, the optimizer and the
  training loop are not reached.
\<close>

theorem dataset_loading_raises_NameError:
  assumes "do_train a" and "1 \<le> gradient_accumulation_steps a"
    and "split a = ''train'' \<or> split a = ''trainval''"
  shows "main a rest = Inl (NameError ''image_features_reader_train'')
       \<and> load_datasets a = Inl (NameError ''image_features_reader_train'')
       \<and> ''image_features_reader_train'' \<notin> set main_assigned
       \<and> ''image_features_reader_train'' \<notin> set module_globals
       \<and> ''image_features_reader'' \<in> set bound_at_264"
proof -
  have l: "load_datasets a = Inl (NameError ''image_features_reader_train'')"
    by (rule load_datasets_NameError [OF assms(3)])
  have "main a rest = Inl (NameError ''image_features_reader_train'')"
    using assms(1,3) by (simp add: main_after_check [OF assms(2)])
  moreover have "''image_features_reader'' \<in> set bound_at_264"
    by (simp add: bound_at_264_def)
  ultimately show ?thesis using l reader_train_unbound by simp
qed

theorem dataset_loading_raises_NameError_witness:
  "main args0 rest_ok = Inl (NameError ''image_features_reader_train'') \<and>
   main (args0\<lparr>split := ''trainval''\<rparr>) rest_ok = Inl (NameError ''image_features_reader_train'')"
proof -
  have "do_train args0" "1 \<le> gradient_accumulation_steps args0" "split args0 = ''train''"
    by (simp_all add: args0_def)
  then have "main args0 rest_ok = Inl (NameError ''image_features_reader_train'')"
    using dataset_loading_raises_NameError [of args0 rest_ok] by simp
  moreover have "do_train (args0\<lparr>split := ''trainval''\<rparr>)"
    "1 \<le> gradient_accumulation_steps (args0\<lparr>split := ''trainval''\<rparr>)"
    "split (args0\<lparr>split := ''trainval''\<rparr>) = ''trainval''"
    by (simp_all add: args0_def)
  then have "main (args0\<lparr>split := ''trainval''\<rparr>) rest_ok =
      Inl (NameError ''image_features_reader_train'')"
    using dataset_loading_raises_NameError [of "args0\<lparr>split := ''trainval''\<rparr>" rest_ok] by simp
  ultimately show ?thesis by simp
qed

text \<open>
  C10, as the specification has it, fails when the accumulation-step count is below 1:
  training is requested on the \<open>train\<close> split, and the run ends with the
  \<open>ValueError\<close> of line 225, before the data sets are loaded.
\<close>

theorem invalid_accumulation_precedes_NameError:
  "do_train args_K0 \<and> split args_K0 = ''train'' \<and>
   main args_K0 rest_ok = Inl (ValueError_accumulation 0)"
  by (simp add: main_def check_accumulation_def args_K0_def args0_def)

section \<open>Rows of a tensor\<close>

lemma chunks_concat:
  "length rs = n \<Longrightarrow> \<forall>r \<in> set rs. length r = c \<Longrightarrow> chunks n c (concat rs) = rs"
  by (induction rs arbitrary: n) auto

lemma length_chunks: "length (chunks n c xs) = n"
  by (induction n arbitrary: xs) auto

lemma chunks_rows:
  "length xs = n * c \<Longrightarrow> r \<in> set (chunks n c xs) \<Longrightarrow> length r = c"
proof (induction n arbitrary: xs)
  case 0
  then show ?case by simp
next
  case (Suc n)
  from Suc.prems(2) consider "r = take c xs" | "r \<in> set (chunks n c (drop c xs))" by auto
  then show ?case
  proof cases
    case 1
    then show ?thesis using Suc.prems(1) by simp
  next
    case 2
    have "length (drop c xs) = n * c" using Suc.prems(1) by simp
    then show ?thesis using Suc.IH 2 by blast
  qed
qed

lemma concat_chunks: "length xs = n * c \<Longrightarrow> concat (chunks n c xs) = xs"
proof (induction n arbitrary: xs)
  case 0
  then show ?case by simp
next
  case (Suc n)
  then have "length (drop c xs) = n * c" by simp
  with Suc.IH have "concat (chunks n c (drop c xs)) = drop c xs" by blast
  then show ?case by simp
qed

lemma rows_of_2d:
  assumes "shape t = [b, c]" and "wf_tensor t"
  shows "length (rows_of t) = b" and "\<forall>r \<in> set (rows_of t). length r = c"
    and "concat (rows_of t) = elems t"
proof -
  have l: "length (elems t) = b * c" using assms by (simp add: wf_tensor_def)
  have r: "rows_of t = chunks b c (elems t)" using assms(1) by (simp add: rows_of_def)
  show "length (rows_of t) = b" by (simp add: r length_chunks)
  show "\<forall>r \<in> set (rows_of t). length r = c" using chunks_rows [OF l] by (simp add: r)
  show "concat (rows_of t) = elems t" by (simp add: r concat_chunks [OF l])
qed

lemma rows_of_Tensor_concat:
  "length rs = b \<Longrightarrow> \<forall>r \<in> set rs. length r = c \<Longrightarrow> rows_of (Tensor [b, c] (concat rs)) = rs"
  by (simp add: rows_of_def chunks_concat)

section \<open>The match score\<close>

lemma argmax_less: "xs \<noteq> [] \<Longrightarrow> argmax xs < length xs"
proof (induction xs rule: argmax.induct)
  case (3 x y ys)
  then show ?case by (simp add: Let_def)
qed simp_all

lemma argmax_greatest: "x \<in> set xs \<Longrightarrow> x \<le> xs ! argmax xs"
proof (induction xs arbitrary: x rule: argmax.induct)
  case 1
  then show ?case by simp
next
  case (2 y)
  then show ?case by simp
next
  case (3 a y ys)
  let ?k = "argmax (y # ys)"
  show ?case
  proof (cases "(y # ys) ! ?k \<le> a")
    case True
    then have am: "argmax (a # y # ys) = 0" by (simp add: Let_def)
    show ?thesis
    proof (cases "x = a")
      case True
      then show ?thesis unfolding am by simp
    next
      case False
      with "3.prems" have "x \<in> set (y # ys)" by simp
      then have "x \<le> (y # ys) ! ?k" by (rule "3.IH")
      with True show ?thesis unfolding am by simp
    qed
  next
    case False
    then have am: "argmax (a # y # ys) = Suc ?k" by (simp add: Let_def)
    show ?thesis
    proof (cases "x = a")
      case True
      with False show ?thesis unfolding am by simp
    next
      case neq: False
      with "3.prems" have "x \<in> set (y # ys)" by simp
      then have "x \<le> (y # ys) ! ?k" by (rule "3.IH")
      then show ?thesis unfolding am by simp
    qed
  qed
qed

lemma nth_argmax_Max:
  assumes "xs \<noteq> []"
  shows "xs ! argmax xs = Max (set xs)"
proof (rule Max_eqI [symmetric])
  show "finite (set xs)" by simp
  show "y \<le> xs ! argmax xs" if "y \<in> set xs" for y using that by (rule argmax_greatest)
  show "xs ! argmax xs \<in> set xs" using assms by (simp add: argmax_less)
qed

lemma scatter_rows_map2:
  "length idx = length rs \<Longrightarrow> scatter_rows rs idx v = map2 (\<lambda>r i. r[i := v]) rs idx"
proof (induction rs arbitrary: idx)
  case Nil
  then show ?case by simp
next
  case (Cons r rs)
  then obtain i idx' where "idx = i # idx'" by (cases idx) auto
  with Cons show ?case by simp
qed

lemma zero_row_sum: "sum_list (map2 (*) (replicate (length t) 0) t) = (0 :: real)"
  by (induction t) simp_all

lemma one_hot_row_sum:
  "i < length t \<Longrightarrow> sum_list (map2 (*) ((replicate (length t) 0)[i := 1]) t) = (t ! i :: real)"
proof (induction t arbitrary: i)
  case Nil
  then show ?case by simp
next
  case (Cons x t)
  show ?case
  proof (cases i)
    case 0
    then show ?thesis by (simp add: zero_row_sum)
  next
    case (Suc j)
    with Cons.prems have "j < length t" by simp
    with Cons.IH Suc show ?thesis by simp
  qed
qed

lemma chunks_replicate: "chunks b c (replicate (b * c) x) = replicate b (replicate c x)"
proof (induction b)
  case 0
  show ?case by simp
next
  case (Suc b)
  have "replicate (Suc b * c) x = replicate c x @ replicate (b * c) x"
    by (simp add: replicate_add)
  with Suc show ?case by simp
qed

lemma map2_concat:
  "list_all2 (\<lambda>xs ys. length xs = length ys) xss yss \<Longrightarrow>
     map2 f (concat xss) (concat yss) = concat (map2 (map2 f) xss yss)"
  by (induction rule: list_all2_induct) simp_all

lemma score_row_sum:
  "p \<noteq> [] \<Longrightarrow> length p = length t \<Longrightarrow> sum_list (score_row p t) = t ! argmax p"
  unfolding score_row_def using argmax_less [of p] by (simp add: one_hot_row_sum)

lemma length_score_row: "length (score_row p t) = length t"
  by (simp add: score_row_def)

lemma compute_score_rows:
  assumes lg: "shape logits = [b, c]" and lb: "shape labels = [b, c]"
    and wg: "wf_tensor logits" and wb: "wf_tensor labels" and c: "0 < c"
  shows "compute_score_with_logits logits labels =
           Inr (Tensor [b, c] (concat (map2 score_row (rows_of logits) (rows_of labels))))"
proof -
  let ?P = "rows_of logits" and ?T = "rows_of labels"
  let ?idx = "map argmax ?P"
  note P = rows_of_2d [OF lg wg] and T = rows_of_2d [OF lb wb]
  have mx: "torch_max_dim1 logits = Inr (map (\<lambda>r. r ! argmax r) ?P, ?idx)"
    using lg c by (simp add: torch_max_dim1_def)
  have zr: "rows_of (torch_zeros [b, c]) = replicate b (replicate c 0)"
    by (simp add: torch_zeros_def rows_of_def chunks_replicate)
  have in_row: "\<forall>i \<in> set ?idx. i < c"
  proof
    fix i assume "i \<in> set ?idx"
    then obtain r where r: "r \<in> set ?P" and i: "i = argmax r" by auto
    with P(2) c have "r \<noteq> []" "length r = c" by auto
    with i show "i < c" using argmax_less [of r] by simp
  qed
  have sc: "scatter_rows (replicate b (replicate c 0)) ?idx 1 =
      map (\<lambda>p. (replicate c 0)[argmax p := 1]) ?P"
    using P(1)
    by (simp add: scatter_rows_map2 map2_map_map zip_replicate1 map_replicate_const
        list_eq_iff_nth_eq)
  have st: "scatter_dim1 (torch_zeros [b, c]) ?idx 1 =
      Inr (Tensor [b, c] (concat (map (\<lambda>p. (replicate c 0)[argmax p := 1]) ?P)))"
    using in_row P(1) unfolding scatter_dim1_def zr sc by (simp add: torch_zeros_def)
  have la: "list_all2 (\<lambda>xs ys. length xs = length ys)
      (map (\<lambda>p. (replicate c 0)[argmax p := 1]) ?P) ?T"
    using P(1) T(1,2) by (simp add: list_all2_conv_all_nth)
  have rows: "map2 (map2 (*)) (map (\<lambda>p. (replicate c 0)[argmax p := 1]) ?P) ?T =
      map2 score_row ?P ?T"
    using P(1) T(1,2) by (auto simp: list_eq_iff_nth_eq score_row_def)
  have ml: "tensor_mul (Tensor [b, c] (concat (map (\<lambda>p. (replicate c 0)[argmax p := 1]) ?P))) labels =
      Inr (Tensor [b, c] (concat (map2 score_row ?P ?T)))"
    unfolding tensor_mul_def using lb T(3) [symmetric] by (simp add: map2_concat [OF la] rows)
  show ?thesis
    unfolding compute_score_with_logits_def mx lb by (simp add: st ml)
qed

lemma rows_L1: "rows_of L1 = [[0.1, 0.9, 0.2]]" and rows_L2: "rows_of L2 = [[0.9, 0.1, 0.2]]"
  and rows_T1: "rows_of T1 = [[0, 1, 0]]"
  by (simp_all add: L1_def L2_def T1_def rows_of_def eval_nat_numeral)

lemma argmax_examples: "argmax [0.1, 0.9, 0.2] = 1" "argmax [0.9, 0.1, 0.2] = 0"
  by simp_all

lemma wf_examples: "wf_tensor L1" "wf_tensor L2" "wf_tensor T1"
  by (simp_all add: wf_tensor_def L1_def L2_def T1_def)

lemma length_concat_rows:
  "length rs = b \<Longrightarrow> \<forall>r \<in> set rs. length r = c \<Longrightarrow> length (concat rs) = b * c"
  by (induction rs arbitrary: b) auto

text \<open>
  C7. On a prediction and a target of one two-dimensional shape with at least one class,
  \<open>compute_score_with_logits\<close> returns, for every example, the one-hot row of the
  predicted class times the target row; its sum, the score of the example, is the
  target weight at the first greatest logit.
\<close>

theorem match_score_is_target_at_argmax:
  assumes "shape logits = [b, c]" and "shape labels = [b, c]"
    and "wf_tensor logits" and "wf_tensor labels" and "0 < c"
  shows "\<exists>scores. compute_score_with_logits logits labels = Inr scores \<and>
           shape scores = [b, c] \<and> wf_tensor scores \<and>
           (\<forall>i<b. rows_of scores ! i =
                     map2 (*) ((replicate c 0)[argmax (rows_of logits ! i) := 1])
                       (rows_of labels ! i) \<and>
                   sum_list (rows_of scores ! i) =
                     rows_of labels ! i ! argmax (rows_of logits ! i) \<and>
                   rows_of logits ! i ! argmax (rows_of logits ! i) =
                     Max (set (rows_of logits ! i)))"
proof -
  let ?P = "rows_of logits" and ?T = "rows_of labels"
  let ?S = "map2 score_row ?P ?T"
  note P = rows_of_2d [OF assms(1,3)] and T = rows_of_2d [OF assms(2,4)]
  have len: "length ?S = b" using P(1) T(1) by simp
  have row: "\<forall>r \<in> set ?S. length r = c"
    using T(2) by (auto simp: length_score_row dest!: set_zip_rightD)
  have rows: "rows_of (Tensor [b, c] (concat ?S)) = ?S"
    by (rule rows_of_Tensor_concat [OF len row])
  have wf: "wf_tensor (Tensor [b, c] (concat ?S))"
    using length_concat_rows [OF len row] by (simp add: wf_tensor_def)
  have each: "rows_of (Tensor [b, c] (concat ?S)) ! i =
                map2 (*) ((replicate c 0)[argmax (?P ! i) := 1]) (?T ! i) \<and>
              sum_list (rows_of (Tensor [b, c] (concat ?S)) ! i) = ?T ! i ! argmax (?P ! i) \<and>
              ?P ! i ! argmax (?P ! i) = Max (set (?P ! i))" if i: "i < b" for i
  proof -
    have p: "length (?P ! i) = c" and t: "length (?T ! i) = c"
      using P(1,2) T(1,2) i by (simp_all add: all_set_conv_all_nth)
    then have ne: "?P ! i \<noteq> []" using assms(5) by auto
    have s: "?S ! i = score_row (?P ! i) (?T ! i)" using P(1) T(1) i by simp
    show ?thesis unfolding rows s
      using score_row_sum [OF ne, of "?T ! i"] nth_argmax_Max [OF ne] p t
      by (simp add: score_row_def)
  qed
  show ?thesis
  proof (intro exI conjI allI impI)
    show "compute_score_with_logits logits labels = Inr (Tensor [b, c] (concat ?S))"
      by (rule compute_score_rows [OF assms])
    show "shape (Tensor [b, c] (concat ?S)) = [b, c]" by simp
    show "wf_tensor (Tensor [b, c] (concat ?S))" by (rule wf)
  next
    fix i assume "i < b"
    from each [OF this]
    show "rows_of (Tensor [b, c] (concat ?S)) ! i =
            map2 (*) ((replicate c 0)[argmax (?P ! i) := 1]) (?T ! i)"
      and "sum_list (rows_of (Tensor [b, c] (concat ?S)) ! i) = ?T ! i ! argmax (?P ! i)"
      and "?P ! i ! argmax (?P ! i) = Max (set (?P ! i))"
      by blast+
  qed
qed

theorem match_score_is_target_at_argmax_witness:
  "(\<exists>scores. compute_score_with_logits L1 T1 = Inr scores \<and> sum_list (rows_of scores ! 0) = 1) \<and>
   (\<exists>scores. compute_score_with_logits L2 T1 = Inr scores \<and> sum_list (rows_of scores ! 0) = 0)"
proof -
  have s: "shape L1 = [1, 3]" "shape L2 = [1, 3]" "shape T1 = [1, 3]"
    by (simp_all add: L1_def L2_def T1_def)
  have c: "0 < (3 :: nat)" by simp
  from match_score_is_target_at_argmax [OF s(1) s(3) wf_examples(1) wf_examples(3) c]
  have "\<exists>scores. compute_score_with_logits L1 T1 = Inr scores \<and>
      sum_list (rows_of scores ! 0) = rows_of T1 ! 0 ! argmax (rows_of L1 ! 0)"
    by auto
  moreover
  from match_score_is_target_at_argmax [OF s(2) s(3) wf_examples(2) wf_examples(3) c]
  have "\<exists>scores. compute_score_with_logits L2 T1 = Inr scores \<and>
      sum_list (rows_of scores ! 0) = rows_of T1 ! 0 ! argmax (rows_of L2 ! 0)"
    by auto
  ultimately show ?thesis by (simp add: rows_L1 rows_L2 rows_T1)
qed

text \<open>The two examples of the specification, evaluated.\<close>

lemma score_examples:
  "compute_score_with_logits L1 T1 = Inr (Tensor [1, 3] [0, 1, 0])"
  "compute_score_with_logits L2 T1 = Inr (Tensor [1, 3] [0, 0, 0])"
  using compute_score_rows [of L1 1 3 T1] compute_score_rows [of L2 1 3 T1] wf_examples
  by (simp_all add: rows_L1 rows_L2 rows_T1 score_row_def) (simp_all add: L1_def L2_def T1_def)

section \<open>The training loss\<close>

lemma sum_list_map2_rows:
  "length ps = length ts \<Longrightarrow>
     sum_list (concat (map2 (map2 f) ps ts)) =
       (\<Sum>(p, t)\<leftarrow>zip ps ts. \<Sum>(x, y)\<leftarrow>zip p t. (f x y :: real))"
  by (induction ps ts rule: list_induct2) simp_all

lemma bce_mean_rows:
  assumes lg: "shape logits = [b, c]" and lb: "shape labels = [b, c]"
    and wg: "wf_tensor logits" and wb: "wf_tensor labels"
  shows "sum_list (map2 bce_elem (elems logits) (elems labels)) =
           (\<Sum>(p, t)\<leftarrow>zip (rows_of logits) (rows_of labels). \<Sum>(x, y)\<leftarrow>zip p t. bce_elem x y)"
proof -
  note P = rows_of_2d [OF lg wg] and T = rows_of_2d [OF lb wb]
  have la: "list_all2 (\<lambda>xs ys. length xs = length ys) (rows_of logits) (rows_of labels)"
    using P(1,2) T(1,2) by (simp add: list_all2_conv_all_nth all_set_conv_all_nth)
  have "map2 bce_elem (elems logits) (elems labels) =
      concat (map2 (map2 bce_elem) (rows_of logits) (rows_of labels))"
    using map2_concat [OF la, of bce_elem] by (simp add: P(3) T(3))
  then show ?thesis using P(1) T(1) by (simp add: sum_list_map2_rows)
qed

text \<open>
  C6. On logits and labels of one two-dimensional shape, not empty,
  \<open>instance_bce_with_logits\<close> returns the mean of the element-wise binary cross-entropy
  over all \<open>b * c\<close> elements, times the number \<open>c\<close> of classes; that is the sum over
  all elements divided by the number of examples.
\<close>

theorem instance_bce_is_mean_times_classes:
  assumes "shape logits = [b, c]" and "shape labels = [b, c]"
    and "wf_tensor logits" and "wf_tensor labels" and "0 < b" and "0 < c"
  shows "instance_bce_with_logits logits labels =
           Inr ((\<Sum>(p, t)\<leftarrow>zip (rows_of logits) (rows_of labels).
                    \<Sum>(x, y)\<leftarrow>zip p t. bce_elem x y) / real (b * c) * real c)
       \<and> instance_bce_with_logits logits labels =
           Inr ((\<Sum>(p, t)\<leftarrow>zip (rows_of logits) (rows_of labels).
                    \<Sum>(x, y)\<leftarrow>zip p t. bce_elem x y) / real b)"
proof -
  let ?sum = "\<Sum>(p, t)\<leftarrow>zip (rows_of logits) (rows_of labels). \<Sum>(x, y)\<leftarrow>zip p t. bce_elem x y"
  have n: "length (elems logits) = b * c" using assms(1,3) by (simp add: wf_tensor_def)
  then have ne: "elems logits \<noteq> []" using assms(5,6) by auto
  have bce: "binary_cross_entropy_with_logits logits labels = Inr (?sum / real (b * c))"
    using assms(1,2) ne n bce_mean_rows [OF assms(1-4)]
    by (simp add: binary_cross_entropy_with_logits_def)
  have sz: "size_at labels 1 = Inr c" using assms(2) by (simp add: size_at_def dim_def)
  have d: "dim logits = 2" using assms(1) by (simp add: dim_def)
  have first: "instance_bce_with_logits logits labels = Inr (?sum / real (b * c) * real c)"
    unfolding instance_bce_with_logits_def d bce sz by simp
  moreover have "?sum / real (b * c) * real c = ?sum / real b"
    using assms(6) by simp
  ultimately show ?thesis by simp
qed

text \<open>On a matrix without elements the library's mean is NaN.\<close>

lemma instance_bce_empty:
  assumes "shape logits = [b, c]" and "shape labels = [b, c]" and "elems logits = []"
  shows "instance_bce_with_logits logits labels = Inl NaN_result"
  using assms
  by (simp add: instance_bce_with_logits_def binary_cross_entropy_with_logits_def dim_def)

lemma wf_L0: "wf_tensor L0" "wf_tensor T0"
  by (simp_all add: wf_tensor_def L0_def T0_def)

lemma rows_L0: "rows_of L0 = [[0, 0]]" "rows_of T0 = [[1, 0]]"
  by (simp_all add: L0_def T0_def rows_of_def eval_nat_numeral)

theorem instance_bce_is_mean_times_classes_witness:
  "instance_bce_with_logits L0 T0 = Inr (2 * ln 2)"
proof -
  have s: "shape L0 = [1, 2]" "shape T0 = [1, 2]" by (simp_all add: L0_def T0_def)
  have p: "0 < (1 :: nat)" "0 < (2 :: nat)" by simp_all
  from instance_bce_is_mean_times_classes [OF s wf_L0 p]
  show ?thesis by (simp add: rows_L0 bce_elem_def)
qed

section \<open>Evaluation\<close>

lemma sum_list_score_rows:
  assumes "length ps = length ts" and "\<forall>p \<in> set ps. length p = c"
    and "\<forall>t \<in> set ts. length t = c" and "0 < c"
  shows "sum_list (concat (map2 score_row ps ts)) = (\<Sum>(p, t)\<leftarrow>zip ps ts. t ! argmax p)"
  using assms
proof (induction ps ts rule: list_induct2)
  case Nil
  show ?case by simp
next
  case (Cons p ps t ts)
  then have "p \<noteq> []" "length p = length t" by auto
  then have "sum_list (score_row p t) = t ! argmax p" by (rule score_row_sum)
  with Cons show ?case by simp
qed

lemma sum_list_row_max:
  assumes "length ps = length ts" and "\<forall>t \<in> set ts. t \<noteq> []"
  shows "sum_list (map (\<lambda>r. r ! argmax r) ts) = (\<Sum>(p, t)\<leftarrow>zip ps ts. Max (set t))"
  using assms
  by (induction ps ts rule: list_induct2) (simp_all add: nth_argmax_Max)

lemma evaluate_batch_ok:
  assumes "batch_ok model batch"
  shows "evaluate_batch model batch (s, u, n) =
           Inr (s + (\<Sum>(p, t)\<leftarrow>batch_examples model batch. t ! argmax p),
                u + (\<Sum>(p, t)\<leftarrow>batch_examples model batch. Max (set t)),
                n + length (batch_examples model batch))"
proof -
  obtain x target where batch: "batch = (x, target)" by (cases batch)
  let ?pred = "model False x"
  from assms obtain b c where
    lb: "shape target = [b, c]" and lg: "shape ?pred = [b, c]" and c: "0 < c"
    and wg: "wf_tensor ?pred" and wb: "wf_tensor target"
    by (auto simp: batch_ok_def batch split: list.splits)
  note P = rows_of_2d [OF lg wg] and T = rows_of_2d [OF lb wb]
  have ex: "batch_examples model batch = zip (rows_of ?pred) (rows_of target)"
    by (simp add: batch_examples_def batch)
  have cs: "compute_score_with_logits ?pred target =
      Inr (Tensor [b, c] (concat (map2 score_row (rows_of ?pred) (rows_of target))))"
    by (rule compute_score_rows [OF lg lb wg wb c])
  have sc: "tensor_sum (Tensor [b, c] (concat (map2 score_row (rows_of ?pred) (rows_of target)))) =
      (\<Sum>(p, t)\<leftarrow>batch_examples model batch. t ! argmax p)"
    unfolding ex tensor_sum_def using sum_list_score_rows [OF _ P(2) T(2) c] P(1) T(1) by simp
  have mx: "torch_max_dim1 target =
      Inr (map (\<lambda>r. r ! argmax r) (rows_of target), map argmax (rows_of target))"
    using lb c by (simp add: torch_max_dim1_def)
  have ne: "\<forall>t \<in> set (rows_of target). t \<noteq> []" using T(2) c by auto
  have ub: "sum_list (map (\<lambda>r. r ! argmax r) (rows_of target)) =
      (\<Sum>(p, t)\<leftarrow>batch_examples model batch. Max (set t))"
    unfolding ex using sum_list_row_max [OF _ ne, of "rows_of ?pred"] P(1) T(1) by simp
  have sz: "size_at ?pred 0 = Inr b" using lg by (simp add: size_at_def dim_def)
  have len: "length (batch_examples model batch) = b" unfolding ex using P(1) T(1) by simp
  show ?thesis
    unfolding evaluate_batch_def using cs sc mx ub sz len
    by (simp add: Let_def batch)
qed

lemma evaluate_batches_ok:
  assumes "\<forall>batch \<in> set dl. batch_ok model batch"
  shows "evaluate_batches model dl (s, u, n) =
           Inr (s + (\<Sum>(p, t)\<leftarrow>eval_examples model dl. t ! argmax p),
                u + (\<Sum>(p, t)\<leftarrow>eval_examples model dl. Max (set t)),
                n + length (eval_examples model dl))"
  using assms
proof (induction dl arbitrary: s u n)
  case Nil
  show ?case by (simp add: eval_examples_def)
next
  case (Cons batch dl)
  then have ok: "batch_ok model batch" and rest: "\<forall>batch \<in> set dl. batch_ok model batch"
    by simp_all
  have ex: "eval_examples model (batch # dl) = batch_examples model batch @ eval_examples model dl"
    by (simp add: eval_examples_def)
  show ?case
    unfolding ex using evaluate_batch_ok [OF ok] Cons.IH [OF rest]
    by (simp add: add.assoc)
qed

lemma evaluate_batches_no_grad:
  "evaluate_batches model dl acc = evaluate_batches (\<lambda>g. model False) dl acc"
proof (induction dl arbitrary: acc)
  case Nil
  show ?case by simp
next
  case (Cons batch dl)
  have "evaluate_batch model batch acc = evaluate_batch (\<lambda>g. model False) batch acc"
    by (simp add: evaluate_batch_def)
  with Cons show ?case by (simp split: sum.splits)
qed

text \<open>
  C8. On a loader whose batches are well-formed and whose data set has as many examples
  as the batches hold, at least one, \<open>evaluate\<close> returns the mean over the examples of
  the target weight at the predicted class and the mean of the greatest target weight;
  and it calls the model with gradient tracking off only.
\<close>

theorem evaluate_returns_mean_score_and_bound:
  assumes "\<forall>batch \<in> set dl. batch_ok model batch"
    and "n = length (eval_examples model dl)" and "0 < n"
  shows "evaluate model dl n =
           Inr ((\<Sum>(p, t)\<leftarrow>eval_examples model dl. t ! argmax p) / real n,
                (\<Sum>(p, t)\<leftarrow>eval_examples model dl. Max (set t)) / real n)
       \<and> evaluate model dl n = evaluate (\<lambda>g. model False) dl n"
proof
  show "evaluate model dl n =
      Inr ((\<Sum>(p, t)\<leftarrow>eval_examples model dl. t ! argmax p) / real n,
           (\<Sum>(p, t)\<leftarrow>eval_examples model dl. Max (set t)) / real n)"
    unfolding evaluate_def evaluate_batches_ok [OF assms(1)] using assms(3) by simp
  show "evaluate model dl n = evaluate (\<lambda>g. model False) dl n"
    unfolding evaluate_def by (simp add: evaluate_batches_no_grad [of model])
qed

lemma examples1:
  "eval_examples model1 loader1 =
     [([0.1, 0.9, 0.2], [0, 1, 0]), ([0.9, 0.1, 0.2], [0.3, 1, 0.6]), ([0.9, 0.1, 0.2], [0.5, 0, 0])]"
  by (simp add: eval_examples_def batch_examples_def loader1_def model1_def L2_def rows_of_def
      eval_nat_numeral)

theorem evaluate_returns_mean_score_and_bound_witness:
  "evaluate model1 loader1 3 = Inr (1.8 / 3, 2.5 / 3)"
proof -
  have ok: "\<forall>batch \<in> set loader1. batch_ok model1 batch"
    by (simp add: loader1_def batch_ok_def model1_def L2_def wf_tensor_def)
  have n: "3 = length (eval_examples model1 loader1)" "0 < (3 :: nat)"
    by (simp_all add: examples1)
  from evaluate_returns_mean_score_and_bound [OF ok n]
  show ?thesis by (simp add: examples1)
qed

end
